theory Spec2Isabelle
  imports Main
begin

section \<open>Values, exceptions and configuration\<close>

text \<open>
  The bot is one JavaScript class, \<open>Bot\<close>. Its methods are embedded as HOL functions
  with the same names. A thrown exception is the \<open>Inl\<close> of a sum; an object a method
  mutates (the ticket buffer, the issue) is passed in and returned.
\<close>

datatype error = TypeError | SyntaxError | Rejected string

text \<open>
  A field of an issue, as the tracker's JSON gives it: absent (\<open>Undefined\<close>), \<open>null\<close>,
  a text, a list of texts (the sprint custom field), or an object, of which the program
  reads the properties \<open>name\<close> and \<open>displayName\<close> only (\<open>None\<close>: the property is absent).
\<close>

datatype jsval =
    Undefined
  | Null
  | Str string
  | Strs "string list"
  | Obj "string option" "string option"

text \<open>JavaScript's truthiness, as \<open>if (v)\<close>, \<open>v && ...\<close> and \<open>v || ...\<close> test it.\<close>

fun truthy :: "jsval \<Rightarrow> bool" where
  "truthy Undefined = False"
| "truthy Null = False"
| "truthy (Str s) = (s \<noteq> [])"
| "truthy (Strs xs) = True"
| "truthy (Obj n d) = True"

text \<open>
  The configuration holds plain objects, and reading \<open>object[name]\<close> where the object
  has no own property of that name gives the member of \<open>Object.prototype\<close> of that
  name, when there is one. Each member is a function or an object, so it is truthy. The
  program uses what it read as a property key or inside a template, that is, as text:
  \<open>objectPrototype\<close> gives that text as Node prints it.
\<close>

definition objectPrototype :: "string \<Rightarrow> string option" where
  "objectPrototype name =
     (if name = ''constructor'' then Some ''function Object() { [native code] }''
      else if name = ''__proto__'' then Some ''[object Object]''
      else if name \<in> set [''__defineGetter__'', ''__defineSetter__'', ''hasOwnProperty'',
                            ''__lookupGetter__'', ''__lookupSetter__'', ''isPrototypeOf'',
                            ''propertyIsEnumerable'', ''toString'', ''valueOf'',
                            ''toLocaleString'']
      then Some (''function '' @ name @ ''() { [native code] }'')
      else None)"

text \<open>
  The issue the tracker returns. \<open>issue_fields\<close> is the object \<open>issue.fields\<close>: a
  property that is not there reads as \<open>Undefined\<close>.
\<close>

record issue =
  key :: string
  issue_fields :: "string \<Rightarrow> jsval"

text \<open>
  A response format of \<open>config.responseFormats\<close>. \<open>pretext\<close> and \<open>title\<close> are template
  sources handed to \<open>eval\<close>; \<open>format_fields\<close> is the property \<open>fields\<close>. \<open>None\<close> is an
  absent property.
\<close>

record format =
  description :: bool
  pretext :: "string option"
  title :: "string option"
  hideFooter :: bool
  respondInThread :: bool
  format_fields :: "string list option"

record jiraConfig =
  protocol :: string
  host :: string
  port :: string
  base :: string
  regex :: string
  sprintField :: string
  customFields :: "(string \<times> string) list option"
  atResponseFormat :: string
  responseFormat :: string

record config =
  jira :: jiraConfig
  usermap :: "string \<rightharpoonup> string"
  channelFormats :: "(string \<rightharpoonup> string) option"
  responseFormats :: "string \<rightharpoonup> format"

text \<open>
  What the program calls and this repository does not define: the regular expression
  engine (\<open>message.match(this.ticketRegExp)\<close>, with the \<open>g\<close> flag: all matches in text
  order, \<open>None\<close> for \<open>null\<close>), \<open>eval\<close> on a template with \<open>issue\<close> in scope,
  \<open>moment(v).calendar()\<close>, \<open>J2S.toSlack\<close>, the tracker client's \<open>findIssue\<close> (a rejected
  promise is \<open>Inl\<close>) and the two strings of \<open>package.json\<close>. Each is a parameter.
\<close>

record env =
  regexMatch :: "string \<Rightarrow> string \<Rightarrow> string list option"
  evalTemplate :: "string \<Rightarrow> issue \<Rightarrow> error + jsval"
  calendar :: "jsval \<Rightarrow> error + string"
  toSlack :: "jsval \<Rightarrow> error + string"
  findIssue :: "string \<Rightarrow> error + issue"
  PACKAGE_version :: string
  PACKAGE_homepage :: string

section \<open>The bot and its ticket buffer\<close>

text \<open>
  \<open>this.ticketBuffer\<close> is a \<open>Map\<close> from the hash of (channel, ticket) to the time of
  the last response, in milliseconds as \<open>Date.now()\<close> gives them.
\<close>

record bot =
  config :: config
  ticketBuffer :: "string \<rightharpoonup> int"
  TICKET_BUFFER_LENGTH :: int

definition Bot :: "config \<Rightarrow> bot" where
  "Bot cfg = \<lparr>config = cfg, ticketBuffer = Map.empty, TICKET_BUFFER_LENGTH = 300000\<rparr>"

definition hashTicket :: "string \<Rightarrow> string \<Rightarrow> string" where
  "hashTicket channel ticket = channel @ ''-'' @ ticket"

text \<open>
  \<open>uniques\<close> is a plain object used as a set: \<open>uniques[ticket] = 1\<close> creates an own
  property, except for the key \<open>__proto__\<close>, whose setter ignores a number.
\<close>

definition setUnique :: "string list \<Rightarrow> string \<Rightarrow> string list" where
  "setUnique uniques ticket = (if ticket = ''__proto__'' then uniques else ticket # uniques)"

text \<open>\<open>this.ticketBuffer.get(ticketHash) || 0\<close>.\<close>

definition lastResponded :: "(string \<rightharpoonup> int) \<Rightarrow> string \<Rightarrow> int" where
  "lastResponded buf ticketHash =
     (case buf ticketHash of None \<Rightarrow> 0 | Some t \<Rightarrow> if t = 0 then 0 else t)"

text \<open>
  The \<open>found.forEach\<close> loop of \<open>parseTickets\<close>, one equation per ticket. The method call
  \<open>uniques.hasOwnProperty(ticket)\<close> throws once an own property of that name shadows the
  inherited method. What the loop has written to the buffer stays written when it throws.
\<close>

fun forEachFound ::
  "string \<Rightarrow> int \<Rightarrow> int \<Rightarrow> string list \<Rightarrow> string list \<Rightarrow> string list \<Rightarrow> (string \<rightharpoonup> int)
    \<Rightarrow> (string \<rightharpoonup> int) \<times> (error + string list)" where
  "forEachFound channel now len [] retVal uniques buf = (buf, Inr retVal)"
| "forEachFound channel now len (ticket # rest) retVal uniques buf =
     (let ticketHash = hashTicket channel ticket in
      if ''hasOwnProperty'' \<in> set uniques then (buf, Inl TypeError)
      else if ticket \<notin> set uniques \<and> now - lastResponded buf ticketHash > len
      then forEachFound channel now len rest
             (retVal @ [ticket]) (setUnique uniques ticket) (buf(ticketHash \<mapsto> now))
      else forEachFound channel now len rest retVal uniques buf)"

text \<open>
  \<open>parseTickets (channel, message)\<close>. \<open>matchRe\<close> is \<open>message.match(this.ticketRegExp)\<close> and
  \<open>now\<close> is \<open>Date.now()\<close>. An absent channel or message is \<open>None\<close>.
\<close>

definition parseTickets ::
  "(string \<Rightarrow> string list option) \<Rightarrow> int \<Rightarrow> bot \<Rightarrow> string option \<Rightarrow> string option
    \<Rightarrow> bot \<times> (error + string list)" where
  "parseTickets matchRe now b channel message =
     (case channel of
        None \<Rightarrow> (b, Inr [])
      | Some c \<Rightarrow>
          if c = [] then (b, Inr [])
          else (case message of
              None \<Rightarrow> (b, Inr [])
            | Some m \<Rightarrow>
                if m = [] then (b, Inr [])
                else (case matchRe m of
                    None \<Rightarrow> (b, Inr [])
                  | Some found \<Rightarrow>
                      if found = [] then (b, Inr [])
                      else (case forEachFound c now (TICKET_BUFFER_LENGTH b) found [] []
                                   (ticketBuffer b) of
                          (buf, r) \<Rightarrow> (b\<lparr>ticketBuffer := buf\<rparr>, r)))))"

text \<open>\<open>cleanupTicketBuffer\<close>: every entry older than the buffer length is deleted.\<close>

definition cleanupTicketBuffer :: "int \<Rightarrow> bot \<Rightarrow> bot" where
  "cleanupTicketBuffer now b =
     b\<lparr>ticketBuffer := (\<lambda>k. case ticketBuffer b k of
          None \<Rightarrow> None
        | Some time \<Rightarrow> if now - time > TICKET_BUFFER_LENGTH b then None else Some time)\<rparr>"

text \<open>
  The default pattern of \<open>config.default.js\<close>, \<open>([A-Z][A-Z0-9]+-[0-9]+)\<close>, as a global
  match evaluates it: at each position an upper-case letter, the longest run of upper-case
  letters and digits (at least one), a dash, and the longest run of digits (at least one);
  the search resumes after a match. A shorter run cannot be followed by the dash, so
  backtracking finds nothing more.
\<close>

definition isUpper :: "char \<Rightarrow> bool" where
  "isUpper c = (c \<in> set ''ABCDEFGHIJKLMNOPQRSTUVWXYZ'')"

definition isDigit :: "char \<Rightarrow> bool" where
  "isDigit c = (c \<in> set ''0123456789'')"

definition keyAt :: "string \<Rightarrow> string option" where
  "keyAt s =
     (case s of
        [] \<Rightarrow> None
      | c # cs \<Rightarrow>
          if \<not> isUpper c then None
          else (let run = takeWhile (\<lambda>x. isUpper x \<or> isDigit x) cs;
                    r1 = dropWhile (\<lambda>x. isUpper x \<or> isDigit x) cs
                in if run = [] then None
                   else (case r1 of
                       [] \<Rightarrow> None
                     | d # r2 \<Rightarrow>
                         if d \<noteq> CHR ''-'' \<or> takeWhile isDigit r2 = [] then None
                         else Some (c # run @ ''-'' @ takeWhile isDigit r2))))"

text \<open>\<open>skip\<close> counts the characters of the last match still to be passed over.\<close>

fun scanKeys :: "nat \<Rightarrow> string \<Rightarrow> string list" where
  "scanKeys skip [] = []"
| "scanKeys (Suc skip) (c # cs) = scanKeys skip cs"
| "scanKeys 0 (c # cs) =
     (case keyAt (c # cs) of
        None \<Rightarrow> scanKeys 0 cs
      | Some m \<Rightarrow> m # scanKeys (length m - 1) cs)"

definition defaultMatch :: "string \<Rightarrow> string list option" where
  "defaultMatch s = (case scanKeys 0 s of [] \<Rightarrow> None | m # ms \<Rightarrow> Some (m # ms))"

section \<open>Composing the response\<close>

text \<open>
  \<open>formatIssueDescription\<close>: \<open>description || 'Ticket does not contain a description'\<close>,
  handed to \<open>J2S.toSlack\<close>.
\<close>

definition formatIssueDescription :: "env \<Rightarrow> jsval \<Rightarrow> error + string" where
  "formatIssueDescription e descr =
     (let desc = (if truthy descr then descr
                  else Str ''Ticket does not contain a description'')
      in toSlack e desc)"

text \<open>
  \<open>base.replace(/^\/|\/$/g, '')\<close> removes one leading and one trailing slash.
\<close>

definition stripSlashes :: "string \<Rightarrow> string" where
  "stripSlashes s =
     (let s1 = (case s of [] \<Rightarrow> [] | c # cs \<Rightarrow> if c = CHR ''/'' then cs else c # cs)
      in if s1 \<noteq> [] \<and> last s1 = CHR ''/'' then butlast s1 else s1)"

definition buildIssueLink :: "config \<Rightarrow> string \<Rightarrow> string" where
  "buildIssueLink cfg issueKey =
     (let base0 = (if base (jira cfg) \<noteq> []
                   then ''/'' @ stripSlashes (base (jira cfg)) @ ''/browse/''
                   else ''/browse/'')
      in protocol (jira cfg) @ ''://'' @ host (jira cfg) @ '':'' @ port (jira cfg)
           @ base0 @ issueKey)"

text \<open>
  \<open>sprintString.match(/,name=([^,]+),/)\<close>. \<open>nameAt\<close> matches at the start of the text:
  the literal \<open>,name=\<close>, the longest run of characters other than a comma (at least
  one), and a comma. \<open>nameMatch\<close> is the leftmost match, and gives the captured group.
\<close>

definition nameAt :: "string \<Rightarrow> string option" where
  "nameAt s =
     (if take 6 s = '',name=''
      then (let v = takeWhile (\<lambda>c. c \<noteq> CHR '','') (drop 6 s);
                r = dropWhile (\<lambda>c. c \<noteq> CHR '','') (drop 6 s)
            in if v \<noteq> [] \<and> r \<noteq> [] then Some v else None)
      else None)"

fun nameMatch :: "string \<Rightarrow> string option" where
  "nameMatch [] = None"
| "nameMatch (c # cs) =
     (case nameAt (c # cs) of Some v \<Rightarrow> Some v | None \<Rightarrow> nameMatch cs)"

text \<open>
  \<open>parseSprint (customField)\<close> returns the name and, first, the custom field as the call
  leaves it: \<open>customField.pop()\<close> takes the last element out of the array it is given.
  A non-empty text has a \<open>length\<close> and no \<open>pop\<close>.
\<close>

fun parseSprint :: "jsval \<Rightarrow> jsval \<times> (error + string)" where
  "parseSprint (Strs xs) =
     (if xs = [] then (Strs xs, Inr [])
      else (Strs (butlast xs),
            Inr (case nameMatch (last xs) of
                   Some m \<Rightarrow> if m \<noteq> [] then m else []
                 | None \<Rightarrow> [])))"
| "parseSprint (Str s) = (if s = [] then (Str s, Inr []) else (Str s, Inl TypeError))"
| "parseSprint Undefined = (Undefined, Inr [])"
| "parseSprint Null = (Null, Inr [])"
| "parseSprint (Obj n d) = (Obj n d, Inr [])"

text \<open>
  \<open>jira2Slack (username)\<close>; an absent name is the key \<open>undefined\<close>. \<open>usermap\<close> holds
  the own properties of \<open>config.usermap\<close>.
\<close>

definition jira2Slack :: "config \<Rightarrow> string option \<Rightarrow> string" where
  "jira2Slack cfg username =
     (let name = (case username of None \<Rightarrow> ''undefined'' | Some u \<Rightarrow> u)
      in case usermap cfg name of
           Some m \<Rightarrow> if m \<noteq> [] then ''@'' @ m else []
         | None \<Rightarrow>
             (case objectPrototype name of
                Some inherited \<Rightarrow> ''@'' @ inherited
              | None \<Rightarrow> []))"

text \<open>
  Reading \<open>v.name\<close> and \<open>v.displayName\<close>: a \<open>TypeError\<close> on \<open>undefined\<close> and \<open>null\<close>,
  \<open>undefined\<close> (here \<open>None\<close>) on a text or an array.
\<close>

fun getName :: "jsval \<Rightarrow> error + string option" where
  "getName Undefined = Inl TypeError"
| "getName Null = Inl TypeError"
| "getName (Str s) = Inr None"
| "getName (Strs xs) = Inr None"
| "getName (Obj n d) = Inr n"

fun getDisplayName :: "jsval \<Rightarrow> error + string option" where
  "getDisplayName Undefined = Inl TypeError"
| "getDisplayName Null = Inl TypeError"
| "getDisplayName (Str s) = Inr None"
| "getDisplayName (Strs xs) = Inr None"
| "getDisplayName (Obj n d) = Inr d"

fun optStr :: "string option \<Rightarrow> jsval" where
  "optStr None = Undefined"
| "optStr (Some s) = Str s"

text \<open>\<open>this.jira2Slack(person.name) || person.displayName\<close>.\<close>

definition personValue :: "config \<Rightarrow> jsval \<Rightarrow> error + jsval" where
  "personValue cfg person =
     (case getName person of
        Inl x \<Rightarrow> Inl x
      | Inr n \<Rightarrow>
          if jira2Slack cfg n \<noteq> [] then Inr (Str (jira2Slack cfg n))
          else (case getDisplayName person of
              Inl x \<Rightarrow> Inl x
            | Inr d \<Rightarrow> Inr (optStr d)))"

text \<open>
  The formatters of \<open>fieldFormatters\<close>. Each returns the issue as it leaves it, and then
  what it threw or the object it returned: \<open>Some (value, short)\<close>, or \<open>None\<close> where the
  function returns nothing.
\<close>

type_synonym formatter = "issue \<Rightarrow> issue \<times> (error + (jsval \<times> bool) option)"

definition Created :: "env \<Rightarrow> formatter" where
  "Created e issue =
     (issue, case calendar e (issue_fields issue ''created'') of
               Inl x \<Rightarrow> Inl x | Inr s \<Rightarrow> Inr (Some (Str s, True)))"

definition Updated :: "env \<Rightarrow> formatter" where
  "Updated e issue =
     (issue, case calendar e (issue_fields issue ''updated'') of
               Inl x \<Rightarrow> Inl x | Inr s \<Rightarrow> Inr (Some (Str s, True)))"

definition Status :: formatter where
  "Status issue =
     (issue, case getName (issue_fields issue ''status'') of
               Inl x \<Rightarrow> Inl x | Inr n \<Rightarrow> Inr (Some (optStr n, True)))"

definition Priority :: formatter where
  "Priority issue =
     (issue, case getName (issue_fields issue ''priority'') of
               Inl x \<Rightarrow> Inl x | Inr n \<Rightarrow> Inr (Some (optStr n, True)))"

definition Reporter :: "config \<Rightarrow> formatter" where
  "Reporter cfg issue =
     (issue, case personValue cfg (issue_fields issue ''reporter'') of
               Inl x \<Rightarrow> Inl x | Inr v \<Rightarrow> Inr (Some (v, True)))"

definition Assignee :: "config \<Rightarrow> formatter" where
  "Assignee cfg issue =
     (issue, if truthy (issue_fields issue ''assignee'')
             then (case personValue cfg (issue_fields issue ''assignee'') of
                     Inl x \<Rightarrow> Inl x | Inr v \<Rightarrow> Inr (Some (v, True)))
             else Inr (Some (Str ''Unassigned'', True)))"

definition Sprint :: "config \<Rightarrow> formatter" where
  "Sprint cfg issue =
     (if sprintField (jira cfg) \<noteq> []
      then (case parseSprint (issue_fields issue (sprintField (jira cfg))) of
          (popped, r) \<Rightarrow>
            (issue\<lparr>issue_fields := (issue_fields issue)(sprintField (jira cfg) := popped)\<rparr>,
             case r of
               Inl x \<Rightarrow> Inl x
             | Inr n \<Rightarrow> Inr (Some (Str (if n \<noteq> [] then n else ''Not Assigned''), False))))
      else (issue, Inr None))"

text \<open>\<open>fieldFormatters.hasOwnProperty(field)\<close> and \<open>fieldFormatters[field]\<close>.\<close>

definition fieldFormatters :: "env \<Rightarrow> config \<Rightarrow> string \<Rightarrow> formatter option" where
  "fieldFormatters e cfg field =
     (if field = ''Created'' then Some (Created e)
      else if field = ''Updated'' then Some (Updated e)
      else if field = ''Status'' then Some Status
      else if field = ''Priority'' then Some Priority
      else if field = ''Reporter'' then Some (Reporter cfg)
      else if field = ''Assignee'' then Some (Assignee cfg)
      else if field = ''Sprint'' then Some (Sprint cfg)
      else None)"

text \<open>
  An entry of \<open>response.fields\<close>, and the attachment. The loop pushes \<open>jiraField\<close> as it
  is, so an entry can be \<open>null\<close> (\<open>None\<close>). The properties of the attachment that share a
  name with those of the format are prefixed.
\<close>

record entry =
  entry_title :: string
  entry_value :: jsval
  entry_short :: bool

record attachment =
  fallback :: jsval
  att_respondInThread :: bool
  att_text :: "string option"
  mrkdwn_in :: "string list"
  att_pretext :: "jsval option"
  att_title :: jsval
  title_link :: string
  footer :: "string option"
  att_fields :: "entry option list"

text \<open>
  The custom-field branch: \<open>Object.keys(customFields).map\<close> assigns \<open>jiraField\<close> once
  per key, so the last key decides the value.
\<close>

definition customEntry :: "config \<Rightarrow> issue \<Rightarrow> string \<Rightarrow> entry option" where
  "customEntry cfg issue field =
     (case customFields (jira cfg) of
        None \<Rightarrow> None
      | Some cfs \<Rightarrow>
          if cfs = [] then None
          else foldl (\<lambda>jiraField k.
                 Some \<lparr>entry_title = field, entry_value = issue_fields issue k,
                       entry_short = False\<rparr>)
               None (map fst cfs))"

text \<open>
  The loop over \<open>responseFormat.fields\<close>. \<open>jiraField['title'] = field\<close> throws when the
  formatter returned nothing. An entry holds the value read when the entry is built.
\<close>

fun pushFields ::
  "env \<Rightarrow> config \<Rightarrow> string list \<Rightarrow> issue \<Rightarrow> entry option list
    \<Rightarrow> issue \<times> (error + entry option list)" where
  "pushFields e cfg [] issue acc = (issue, Inr acc)"
| "pushFields e cfg (field # rest) issue acc =
     (case fieldFormatters e cfg field of
        Some formatter \<Rightarrow>
          (case formatter issue of
             (issue', Inl x) \<Rightarrow> (issue', Inl x)
           | (issue', Inr None) \<Rightarrow> (issue', Inl TypeError)
           | (issue', Inr (Some (v, s))) \<Rightarrow>
               pushFields e cfg rest issue'
                 (acc @ [Some \<lparr>entry_title = field, entry_value = v, entry_short = s\<rparr>]))
      | None \<Rightarrow> pushFields e cfg rest issue (acc @ [customEntry cfg issue field]))"

text \<open>\<open>eval\<close> of a template that is there and not empty.\<close>

definition render :: "env \<Rightarrow> string option \<Rightarrow> issue \<Rightarrow> error + jsval option" where
  "render e template issue =
     (case template of
        None \<Rightarrow> Inr None
      | Some src \<Rightarrow>
          if src = [] then Inr None
          else (case evalTemplate e src issue of Inl x \<Rightarrow> Inl x | Inr v \<Rightarrow> Inr (Some v)))"

text \<open>
  \<open>this.config.responseFormats[format]\<close>. \<open>responseFormats\<close> holds the own properties
  of the object; a member of \<open>Object.prototype\<close> read in their place has none of the
  properties of a format.
\<close>

definition lookupFormat :: "config \<Rightarrow> string \<Rightarrow> format option" where
  "lookupFormat cfg fmt =
     (case responseFormats cfg fmt of
        Some rf \<Rightarrow> Some rf
      | None \<Rightarrow>
          (case objectPrototype fmt of
             Some inherited \<Rightarrow>
               Some \<lparr>description = False, pretext = None, title = None, hideFooter = False,
                     respondInThread = False, format_fields = None\<rparr>
           | None \<Rightarrow> None))"

text \<open>
  \<open>issueResponse (issue, format)\<close>: the issue as the call leaves it, and what it threw
  or the attachment. A format name for which the lookup gives \<open>undefined\<close> makes the
  first read of a property of the format throw.
\<close>

definition issueResponse :: "env \<Rightarrow> config \<Rightarrow> issue \<Rightarrow> string \<Rightarrow> issue \<times> (error + attachment)" where
  "issueResponse e cfg issue fmt =
     (case lookupFormat cfg fmt of
        None \<Rightarrow> (issue, Inl TypeError)
      | Some rf \<Rightarrow>
          (case (if description rf
                 then (case formatIssueDescription e (issue_fields issue ''description'') of
                         Inl x \<Rightarrow> Inl x | Inr t \<Rightarrow> Inr (Some t))
                 else Inr None) of
             Inl x \<Rightarrow> (issue, Inl x)
           | Inr txt \<Rightarrow>
               (case render e (pretext rf) issue of
                  Inl x \<Rightarrow> (issue, Inl x)
                | Inr pre \<Rightarrow>
                    (case render e (title rf) issue of
                       Inl x \<Rightarrow> (issue, Inl x)
                     | Inr ttl \<Rightarrow>
                         (case pushFields e cfg
                                 (case format_fields rf of None \<Rightarrow> [] | Some fs \<Rightarrow> fs)
                                 issue [] of
                            (issue', Inl x) \<Rightarrow> (issue', Inl x)
                          | (issue', Inr fs) \<Rightarrow>
                              (issue', Inr
                                \<lparr>fallback = issue_fields issue ''summary'',
                                 att_respondInThread = respondInThread rf,
                                 att_text = txt,
                                 mrkdwn_in = [''text''],
                                 att_pretext = pre,
                                 att_title =
                                   (case ttl of
                                      None \<Rightarrow> issue_fields issue ''summary''
                                    | Some t \<Rightarrow> t),
                                 title_link = buildIssueLink cfg (key issue),
                                 footer =
                                   (if hideFooter rf then None
                                    else Some (''Slack Jira '' @ PACKAGE_version e @ '' - ''
                                               @ PACKAGE_homepage e)),
                                 att_fields = fs\<rparr>))))))"

section \<open>Handling a message\<close>

record message =
  msg_type :: "string option"
  msg_event :: "string option"
  msg_text :: "string option"
  msg_channel :: "string option"

text \<open>
  What \<open>handleMessage\<close> does to the outside: the lines it logs and the replies it hands
  to the chat client.
\<close>

datatype action =
    LogDetected "string list"
  | LogFormat "string option" string
  | Reply "attachment list"
  | ReplyInThread "attachment list"
  | LogFindError string error
  | LogCouldNotRespond

text \<open>
  The constant \<open>responseFormat\<close> of \<open>handleMessage\<close>. An absent channel is the key
  \<open>undefined\<close>; an empty name is falsy. \<open>channelFormats\<close> holds the own properties of
  \<open>config.channelFormats\<close>: for a channel that is none of them and names a member of
  \<open>Object.prototype\<close>, the lookup gives that member, which is truthy and is chosen.
\<close>

definition chosenFormat :: "config \<Rightarrow> message \<Rightarrow> string" where
  "chosenFormat cfg message =
     (if msg_event message = Some ''direct_mention'' then atResponseFormat (jira cfg)
      else (case channelFormats cfg of
          None \<Rightarrow> responseFormat (jira cfg)
        | Some cf \<Rightarrow>
            (let channel = (case msg_channel message of None \<Rightarrow> ''undefined'' | Some c \<Rightarrow> c)
             in case cf channel of
                  Some f \<Rightarrow> if f \<noteq> [] then f else responseFormat (jira cfg)
                | None \<Rightarrow>
                    (case objectPrototype channel of
                       Some inherited \<Rightarrow> inherited
                     | None \<Rightarrow> responseFormat (jira cfg)))))"

text \<open>
  The promise chain of one ticket: \<open>findIssue(issueId).then(...).catch(...)\<close>. What the
  \<open>then\<close> callback throws is caught by the \<open>catch\<close> as a rejection is.
\<close>

definition respond :: "env \<Rightarrow> config \<Rightarrow> message \<Rightarrow> string \<Rightarrow> action list" where
  "respond e cfg message issueId =
     (case findIssue e issueId of
        Inl x \<Rightarrow> [LogFindError issueId x]
      | Inr issue \<Rightarrow>
          LogFormat (msg_channel message) (chosenFormat cfg message)
          # (case snd (issueResponse e cfg issue (chosenFormat cfg message)) of
               Inl x \<Rightarrow> [LogFindError issueId x]
             | Inr response \<Rightarrow>
                 if att_respondInThread response then [ReplyInThread [response]]
                 else [Reply [response]]))"

text \<open>
  \<open>handleMessage (message)\<close>, the tickets answered in the order found. \<open>parseTickets\<close> is
  called outside any handler, so what it throws leaves \<open>handleMessage\<close>.
\<close>

definition handleMessage :: "env \<Rightarrow> int \<Rightarrow> bot \<Rightarrow> message \<Rightarrow> bot \<times> (error + action list)" where
  "handleMessage e now b message =
     (if msg_type message = Some ''ambient''
         \<and> (case msg_text message of None \<Rightarrow> False | Some t \<Rightarrow> t \<noteq> [])
      then (case parseTickets (regexMatch e (regex (jira (config b)))) now b
                   (msg_channel message) (msg_text message) of
          (b', Inl x) \<Rightarrow> (b', Inl x)
        | (b', Inr found) \<Rightarrow>
            if found \<noteq> []
            then (b', Inr (LogDetected found
                           # concat (map (respond e (config b) message) found)))
            else (b', Inr []))
      else (b, Inr [LogCouldNotRespond]))"

section \<open>The default configuration and a sample run\<close>

text \<open>\<open>config.default.js\<close>; the port is the text the link template prints.\<close>

definition config_default :: config where
  "config_default =
     \<lparr>jira =
        \<lparr>protocol = ''https'', host = ''jira.yourhost.domain'', port = ''443'', base = [],
         regex = ''([A-Z][A-Z0-9]+-[0-9]+)'', sprintField = [], customFields = Some [],
         atResponseFormat = ''full'', responseFormat = ''micro''\<rparr>,
      usermap = Map.empty,
      channelFormats = Some Map.empty,
      responseFormats =
        [''micro'' \<mapsto>
           \<lparr>description = False, pretext = None,
            title = Some ''`${issue.key}: ${issue.fields.summary}`'',
            hideFooter = True, respondInThread = True, format_fields = None\<rparr>,
         ''minimal'' \<mapsto>
           \<lparr>description = True,
            pretext = Some ''`Here is some information on ${issue.key}`'',
            title = None, hideFooter = False, respondInThread = False,
            format_fields = None\<rparr>,
         ''full'' \<mapsto>
           \<lparr>description = True,
            pretext = Some ''`Here is some information on ${issue.key}`'',
            title = None, hideFooter = False, respondInThread = False,
            format_fields =
              Some [''Created'', ''Updated'', ''Status'', ''Priority'', ''Reporter'',
                    ''Assignee'', ''Sprint'']\<rparr>]\<rparr>"

text \<open>
  An environment for the sample runs: the default pattern, an \<open>eval\<close> that renders the
  two templates of the default configuration and rejects a template it cannot parse, and a
  tracker with one issue.
\<close>

fun toText :: "jsval \<Rightarrow> string" where
  "toText Undefined = ''undefined''"
| "toText Null = ''null''"
| "toText (Str s) = s"
| "toText (Strs xs) = concat (map (\<lambda>x. x @ '','') (butlast xs)) @ (if xs = [] then [] else last xs)"
| "toText (Obj n d) = ''[object Object]''"

definition sampleEval :: "string \<Rightarrow> issue \<Rightarrow> error + jsval" where
  "sampleEval src issue =
     (if src = ''`${issue.key}: ${issue.fields.summary}`''
      then Inr (Str (key issue @ '': '' @ toText (issue_fields issue ''summary'')))
      else if src = ''`Here is some information on ${issue.key}`''
      then Inr (Str (''Here is some information on '' @ key issue))
      else Inl SyntaxError)"

definition sampleIssue :: issue where
  "sampleIssue =
     \<lparr>key = ''PROJ-123'',
      issue_fields = (\<lambda>k. Undefined)
        (''summary'' := Str ''Login fails'',
         ''description'' := Str ''Steps to reproduce'',
         ''created'' := Str ''2017-03-01T10:00:00.000+0000'',
         ''updated'' := Str ''2017-03-02T10:00:00.000+0000'',
         ''status'' := Obj (Some ''Open'') None,
         ''priority'' := Obj (Some ''Major'') None,
         ''reporter'' := Obj (Some ''jdoe'') (Some ''John Doe''),
         ''assignee'' := Null,
         ''customfield_10007'' :=
           Strs [''id=7,state=CLOSED,name=Sprint 7,goal='', ''id=8,state=ACTIVE,name=Sprint 8,goal=''])\<rparr>"

definition sampleEnv :: env where
  "sampleEnv =
     \<lparr>regexMatch = (\<lambda>re s. if re = ''([A-Z][A-Z0-9]+-[0-9]+)'' then defaultMatch s else None),
      evalTemplate = sampleEval,
      calendar = (\<lambda>v. Inr ''Today at 10:00 AM''),
      toSlack = (\<lambda>v. Inr (toText v)),
      findIssue = (\<lambda>issueId. if issueId = ''PROJ-123'' then Inr sampleIssue
                              else Inl (Rejected ''Issue Does Not Exist'')),
      PACKAGE_version = ''3.0.0'',
      PACKAGE_homepage = ''https://github.com/tnwinc/slack-jirabot''\<rparr>"

section \<open>First occurrences\<close>

text \<open>
  What the specification says of the extractor: each identifier once, at the position of
  its first occurrence. \<open>firstOccurrences\<close> keeps the positions whose element does not
  occur before them; \<open>keepFirst\<close> computes the same from left to right, given the elements
  seen so far.
\<close>

fun keepFirst :: "string list \<Rightarrow> string list \<Rightarrow> string list" where
  "keepFirst seen [] = []"
| "keepFirst seen (x # xs) =
     (if x \<in> set seen then keepFirst seen xs else x # keepFirst (x # seen) xs)"

definition firstOccurrences :: "string list \<Rightarrow> string list" where
  "firstOccurrences xs =
     map (\<lambda>i. xs ! i) (filter (\<lambda>i. xs ! i \<notin> set (take i xs)) [0..<length xs])"

section \<open>Name tokens and further sample configurations\<close>

text \<open>
  What the specification calls a \<open>name=<value>\<close> token of an encoded sprint: the text
  \<open>,name=\<close>, a value that is not empty and holds no comma, and a comma.
\<close>

definition nameToken :: "string \<Rightarrow> string \<Rightarrow> bool" where
  "nameToken s v \<longleftrightarrow>
     v \<noteq> [] \<and> CHR '','' \<notin> set v \<and> (\<exists>pre post. s = pre @ '',name='' @ v @ '','' @ post)"

text \<open>
  The default configuration with a sprint field named, with a title template that does
  not parse, with a format that lists a field that is not built in, with an override for
  channel \<open>C1\<close>, and with a format of dates, assignee and sprint; and an issue that
  carries a summary and nothing else.
\<close>

definition config_sprint :: config where
  "config_sprint =
     config_default\<lparr>jira := (jira config_default)\<lparr>sprintField := ''customfield_10007''\<rparr>\<rparr>"

definition config_malformed :: config where
  "config_malformed =
     config_default\<lparr>responseFormats := (responseFormats config_default)
       (''micro'' \<mapsto>
          \<lparr>description = False, pretext = None, title = Some ''`${issue.key'',
           hideFooter = True, respondInThread = True, format_fields = None\<rparr>)\<rparr>"

definition config_custom :: config where
  "config_custom =
     config_default\<lparr>responseFormats := (responseFormats config_default)
       (''micro'' \<mapsto>
          \<lparr>description = False, pretext = None, title = None,
           hideFooter = True, respondInThread = True,
           format_fields = Some [''Status'', ''Story Points'', ''Priority'']\<rparr>)\<rparr>"

definition config_override :: config where
  "config_override = config_default\<lparr>channelFormats := Some [''C1'' \<mapsto> ''minimal'']\<rparr>"

definition config_dates :: config where
  "config_dates =
     config_sprint\<lparr>responseFormats := (responseFormats config_default)
       (''micro'' \<mapsto>
          \<lparr>description = False, pretext = None, title = None,
           hideFooter = True, respondInThread = True,
           format_fields = Some [''Created'', ''Updated'', ''Assignee'', ''Sprint'']\<rparr>)\<rparr>"

definition issueBare :: issue where
  "issueBare =
     \<lparr>key = ''PROJ-9'', issue_fields = (\<lambda>k. Undefined)(''summary'' := Str ''Bare'')\<rparr>"

definition sampleMessage :: message where
  "sampleMessage =
     \<lparr>msg_type = Some ''ambient'', msg_event = None, msg_text = Some ''see PROJ-123'',
      msg_channel = Some ''C1''\<rparr>"

section \<open>Properties of the ticket buffer\<close>

lemma hashTicket_inj: "hashTicket c t = hashTicket c t' \<longleftrightarrow> t = t'"
  by (simp add: hashTicket_def)

lemma keepFirst_index:
  "keepFirst seen xs =
     map (\<lambda>i. xs ! i) (filter (\<lambda>i. xs ! i \<notin> set seen \<union> set (take i xs)) [0..<length xs])"
proof (induction xs arbitrary: seen)
  case Nil
  then show ?case by simp
next
  case (Cons x xs)
  define P where "P = (\<lambda>i. (x # xs) ! i \<notin> set seen \<union> set (take i (x # xs)))"
  have upt: "[0..<length (x # xs)] = 0 # map Suc [0..<length xs]"
    by (simp add: upt_conv_Cons map_Suc_upt del: upt_Suc)
  have tl: "map (\<lambda>i. (x # xs) ! i) (filter P (map Suc [0..<length xs]))
      = map (\<lambda>i. xs ! i)
        (filter (\<lambda>i. xs ! i \<notin> set seen \<union> insert x (set (take i xs))) [0..<length xs])"
    unfolding P_def
    by (simp only: filter_map map_map comp_def nth_Cons_Suc take_Suc_Cons list.set)
  have P0: "P 0 \<longleftrightarrow> x \<notin> set seen"
    by (simp add: P_def)
  have split: "map (\<lambda>i. (x # xs) ! i) (filter P [0..<length (x # xs)])
      = (if x \<in> set seen then [] else [x]) @ map (\<lambda>i. (x # xs) ! i) (filter P (map Suc [0..<length xs]))"
    unfolding upt by (simp add: P0)
  show ?case
  proof (cases "x \<in> set seen")
    case True
    have "filter (\<lambda>i. xs ! i \<notin> set seen \<union> insert x (set (take i xs))) [0..<length xs]
        = filter (\<lambda>i. xs ! i \<notin> set seen \<union> set (take i xs)) [0..<length xs]"
      using True by (intro filter_cong) auto
    then have "map (\<lambda>i. (x # xs) ! i) (filter P [0..<length (x # xs)]) = keepFirst seen xs"
      unfolding split tl Cons.IH using True by simp
    with True show ?thesis unfolding P_def by simp
  next
    case False
    have "filter (\<lambda>i. xs ! i \<notin> set seen \<union> insert x (set (take i xs))) [0..<length xs]
        = filter (\<lambda>i. xs ! i \<notin> set (x # seen) \<union> set (take i xs)) [0..<length xs]"
      by (intro filter_cong) auto
    then have "map (\<lambda>i. (x # xs) ! i) (filter P [0..<length (x # xs)]) = x # keepFirst (x # seen) xs"
      unfolding split tl Cons.IH using False by simp
    with False show ?thesis unfolding P_def by simp
  qed
qed

lemma keepFirst_firstOccurrences: "keepFirst [] xs = firstOccurrences xs"
  by (simp add: keepFirst_index firstOccurrences_def)

lemma set_keepFirst: "set (keepFirst seen xs) = set xs - set seen"
  by (induction xs arbitrary: seen) auto

lemma distinct_keepFirst: "distinct (keepFirst seen xs)"
  by (induction xs arbitrary: seen) (auto simp: set_keepFirst)

lemma keepFirst_cong: "set seen = set seen' \<Longrightarrow> keepFirst seen xs = keepFirst seen' xs"
proof (induction xs arbitrary: seen seen')
  case Nil
  then show ?case by simp
next
  case (Cons x xs)
  from Cons.prems have m: "x \<in> set seen \<longleftrightarrow> x \<in> set seen'" by simp
  from Cons.prems have s: "set (x # seen) = set (x # seen')" by simp
  show ?case using Cons.IH[OF Cons.prems] Cons.IH[OF s] m by simp
qed

lemma count_list_distinct: "distinct xs \<Longrightarrow> x \<in> set xs \<Longrightarrow> count_list xs x = 1"
  by (induction xs) auto

lemma filter_keepFirst_skip:
  "\<not> A x \<Longrightarrow> filter A (keepFirst (x # seen) xs) = filter A (keepFirst seen xs)"
proof (induction xs arbitrary: seen)
  case Nil
  then show ?case by simp
next
  case (Cons y ys)
  show ?case
  proof (cases "y = x")
    case True
    with Cons show ?thesis by simp
  next
    case False
    have swap: "keepFirst (y # x # seen) ys = keepFirst (x # y # seen) ys"
      by (rule keepFirst_cong) auto
    from False Cons.prems show ?thesis
      by (simp add: swap Cons.IH)
  qed
qed

lemma forEachFound_result:
  assumes "''hasOwnProperty'' \<notin> set uq \<union> set xs" and "''__proto__'' \<notin> set xs"
    and "\<forall>t\<in>set xs. t \<notin> set uq \<longrightarrow>
           lastResponded buf (hashTicket c t) = lastResponded buf0 (hashTicket c t)"
  shows "snd (forEachFound c now len xs ret uq buf)
           = Inr (ret @ filter (\<lambda>t. len < now - lastResponded buf0 (hashTicket c t))
                           (keepFirst uq xs))"
  using assms
proof (induction xs arbitrary: ret uq buf)
  case Nil
  then show ?case by simp
next
  case (Cons t xs)
  let ?A = "\<lambda>t. len < now - lastResponded buf0 (hashTicket c t)"
  from Cons.prems have ne: "t \<noteq> ''__proto__''" "t \<noteq> ''hasOwnProperty''"
    and uq: "''hasOwnProperty'' \<notin> set uq" by auto
  show ?case
  proof (cases "t \<in> set uq")
    case True
    with Cons.prems have "snd (forEachFound c now len xs ret uq buf)
        = Inr (ret @ filter ?A (keepFirst uq xs))"
      by (intro Cons.IH) auto
    with True uq show ?thesis by simp
  next
    case False
    with Cons.prems have same: "lastResponded buf (hashTicket c t) = lastResponded buf0 (hashTicket c t)"
      by simp
    show ?thesis
    proof (cases "?A t")
      case True
      have "snd (forEachFound c now len xs (ret @ [t]) (t # uq) (buf(hashTicket c t \<mapsto> now)))
          = Inr ((ret @ [t]) @ filter ?A (keepFirst (t # uq) xs))"
        using Cons.prems ne by (intro Cons.IH) (auto simp: lastResponded_def hashTicket_inj)
      with False True same ne uq show ?thesis by (simp add: setUnique_def)
    next
      case notA: False
      have "snd (forEachFound c now len xs ret uq buf) = Inr (ret @ filter ?A (keepFirst uq xs))"
        using Cons.prems by (intro Cons.IH) auto
      with False notA same uq show ?thesis
        by (simp add: filter_keepFirst_skip)
    qed
  qed
qed

lemma forEachFound_buffer:
  "forEachFound c now len xs ret uq buf = (buf', Inr out) \<Longrightarrow>
     \<exists>pushed. out = ret @ pushed \<and> set pushed \<subseteq> set xs \<and>
       buf' = (\<lambda>h. if h \<in> hashTicket c ` set pushed then Some now else buf h)"
proof (induction xs arbitrary: ret uq buf)
  case Nil
  then show ?case by auto
next
  case (Cons t xs)
  show ?case
  proof (cases "t \<notin> set uq \<and> now - lastResponded buf (hashTicket c t) > len")
    case True
    with Cons.prems have
      "forEachFound c now len xs (ret @ [t]) (setUnique uq t) (buf(hashTicket c t \<mapsto> now)) = (buf', Inr out)"
      by (simp add: Let_def split: if_splits)
    from Cons.IH[OF this] obtain pushed where p: "out = (ret @ [t]) @ pushed" "set pushed \<subseteq> set xs"
      "buf' = (\<lambda>h. if h \<in> hashTicket c ` set pushed then Some now else (buf(hashTicket c t \<mapsto> now)) h)"
      by blast
    have "out = ret @ (t # pushed)" using p by simp
    moreover have "set (t # pushed) \<subseteq> set (t # xs)" using p by auto
    moreover have "buf' = (\<lambda>h. if h \<in> hashTicket c ` set (t # pushed) then Some now else buf h)"
      using p by auto
    ultimately show ?thesis by blast
  next
    case False
    with Cons.prems have "forEachFound c now len xs ret uq buf = (buf', Inr out)"
      by (auto simp: Let_def split: if_splits)
    from Cons.IH[OF this] show ?thesis by auto
  qed
qed

lemma forEachFound_returns:
  "''hasOwnProperty'' \<notin> set uq \<union> set xs \<Longrightarrow> \<exists>buf' out. forEachFound c now len xs ret uq buf = (buf', Inr out)"
proof (induction xs arbitrary: ret uq buf)
  case Nil
  then show ?case by simp
next
  case (Cons t xs)
  then show ?case by (auto simp: setUnique_def Let_def)
qed

lemma forEachFound_suppressed:
  "forEachFound c now len xs ret uq buf = (buf', Inr out) \<Longrightarrow> t \<notin> set ret \<Longrightarrow>
     \<not> len < now - lastResponded buf (hashTicket c t) \<Longrightarrow> t \<notin> set out"
proof (induction xs arbitrary: ret uq buf)
  case Nil
  then show ?case by auto
next
  case (Cons x xs)
  show ?case
  proof (cases "x \<notin> set uq \<and> now - lastResponded buf (hashTicket c x) > len")
    case True
    with Cons.prems have run:
      "forEachFound c now len xs (ret @ [x]) (setUnique uq x) (buf(hashTicket c x \<mapsto> now)) = (buf', Inr out)"
      by (simp add: Let_def split: if_splits)
    from True Cons.prems have "x \<noteq> t" by auto
    with Cons.prems show ?thesis
      by (intro Cons.IH[OF run]) (auto simp: lastResponded_def hashTicket_inj)
  next
    case False
    with Cons.prems have "forEachFound c now len xs ret uq buf = (buf', Inr out)"
      by (auto simp: Let_def split: if_splits)
    from Cons.IH[OF this] Cons.prems show ?thesis by auto
  qed
qed

lemma forEachFound_allowed:
  "forEachFound c now len xs ret uq buf = (buf', Inr out) \<Longrightarrow> t \<in> set xs \<Longrightarrow> t \<notin> set uq \<Longrightarrow>
     len < now - lastResponded buf (hashTicket c t) \<Longrightarrow> t \<in> set out"
proof (induction xs arbitrary: ret uq buf)
  case Nil
  then show ?case by auto
next
  case (Cons x xs)
  show ?case
  proof (cases "x \<notin> set uq \<and> now - lastResponded buf (hashTicket c x) > len")
    case True
    with Cons.prems have run:
      "forEachFound c now len xs (ret @ [x]) (setUnique uq x) (buf(hashTicket c x \<mapsto> now)) = (buf', Inr out)"
      by (simp add: Let_def split: if_splits)
    show ?thesis
    proof (cases "x = t")
      case True
      from forEachFound_buffer[OF run] show ?thesis using True by auto
    next
      case False
      with Cons.prems show ?thesis
        by (intro Cons.IH[OF run]) (auto simp: lastResponded_def hashTicket_inj setUnique_def)
    qed
  next
    case False
    with Cons.prems have run: "forEachFound c now len xs ret uq buf = (buf', Inr out)"
      by (auto simp: Let_def split: if_splits)
    from False Cons.prems have "x \<noteq> t" by auto
    with Cons.prems show ?thesis by (intro Cons.IH[OF run]) auto
  qed
qed

lemma parseTickets_run:
  assumes "c \<noteq> []" "m \<noteq> []" "matchRe m = Some found"
  shows "parseTickets matchRe now b (Some c) (Some m) =
           (b\<lparr>ticketBuffer :=
                fst (forEachFound c now (TICKET_BUFFER_LENGTH b) found [] [] (ticketBuffer b))\<rparr>,
            snd (forEachFound c now (TICKET_BUFFER_LENGTH b) found [] [] (ticketBuffer b)))"
  using assms by (cases found) (simp_all add: parseTickets_def split: prod.splits)

lemma parseTickets_cases:
  assumes "parseTickets matchRe now b channel message = (b', r)"
  shows "(b' = b \<and> r = Inr []) \<or>
         (\<exists>c m found. channel = Some c \<and> message = Some m \<and> c \<noteq> [] \<and> m \<noteq> [] \<and>
            matchRe m = Some found \<and>
            forEachFound c now (TICKET_BUFFER_LENGTH b) found [] [] (ticketBuffer b)
              = (ticketBuffer b', r) \<and>
            b' = b\<lparr>ticketBuffer := ticketBuffer b'\<rparr>)"
  using assms
  by (auto simp: parseTickets_def split: option.splits if_splits prod.splits)

lemmas run_simps = parseTickets_def defaultMatch_def keyAt_def isUpper_def isDigit_def Bot_def
  hashTicket_def setUnique_def lastResponded_def Let_def

lemma first_sighting:
  "parseTickets defaultMatch 1000000 (Bot config_default) (Some ''C1'') (Some ''see PROJ-123'')
     = ((Bot config_default)\<lparr>ticketBuffer := [''C1-PROJ-123'' \<mapsto> 1000000]\<rparr>,
        Inr [''PROJ-123''])"
  by (simp add: run_simps)

subsection \<open>Empty input\<close>

text \<open>
  Claim C9. \<open>parseTickets\<close> returns the empty array, throws nothing and leaves the bot as
  it was when the message is absent or empty, and when the channel is absent or empty,
  whatever the other argument is.
\<close>

theorem C9_empty_input:
  "parseTickets matchRe now b channel None = (b, Inr [])
   \<and> parseTickets matchRe now b channel (Some []) = (b, Inr [])
   \<and> parseTickets matchRe now b None message = (b, Inr [])
   \<and> parseTickets matchRe now b (Some []) message = (b, Inr [])"
  by (simp add: parseTickets_def split: option.splits)

theorem C9_empty_input_witness:
  "parseTickets defaultMatch 1000000 (Bot config_default) (Some ''C1'') (Some [])
     = (Bot config_default, Inr [])
   \<and> parseTickets defaultMatch 1000000 (Bot config_default) None (Some ''see PROJ-123'')
     = (Bot config_default, Inr [])"
  using C9_empty_input [of defaultMatch 1000000 "Bot config_default" "Some ''C1''"
      "Some ''see PROJ-123''"]
  by simp

subsection \<open>Write on allow\<close>

text \<open>
  Claim C6. After a call of \<open>parseTickets\<close> that returns, the buffer holds the current
  time for the hash of every ticket returned, and every other entry is as before: in
  particular a ticket that is not returned (a suppressed repeat) keeps the time stored for
  it, and a call that returns nothing leaves the buffer unchanged. The configuration and
  the buffer length are not touched.
\<close>

theorem C6_write_on_allow:
  assumes "parseTickets matchRe now b (Some c) message = (b', Inr out)"
  shows "ticketBuffer b'
           = (\<lambda>h. if h \<in> hashTicket c ` set out then Some now else ticketBuffer b h)
         \<and> (\<forall>t. t \<notin> set out \<longrightarrow>
               ticketBuffer b' (hashTicket c t) = ticketBuffer b (hashTicket c t))
         \<and> config b' = config b \<and> TICKET_BUFFER_LENGTH b' = TICKET_BUFFER_LENGTH b"
proof -
  from parseTickets_cases[OF assms] consider
      (none) "b' = b" "out = []"
    | (run) found where
        "forEachFound c now (TICKET_BUFFER_LENGTH b) found [] [] (ticketBuffer b)
           = (ticketBuffer b', Inr out)"
        "b' = b\<lparr>ticketBuffer := ticketBuffer b'\<rparr>"
    by auto
  then show ?thesis
  proof cases
    case none
    then show ?thesis by simp
  next
    case run
    from forEachFound_buffer[OF run(1)]
    have buf: "ticketBuffer b'
        = (\<lambda>h. if h \<in> hashTicket c ` set out then Some now else ticketBuffer b h)"
      by auto
    have "ticketBuffer b' (hashTicket c t) = ticketBuffer b (hashTicket c t)"
      if "t \<notin> set out" for t
      using that by (auto simp: buf hashTicket_inj)
    moreover have "config b' = config b" "TICKET_BUFFER_LENGTH b' = TICKET_BUFFER_LENGTH b"
      by (subst run(2), simp)+
    ultimately show ?thesis using buf by blast
  qed
qed

text \<open>
  A first sighting records the time; the same text 1000 ms later is suppressed and the
  stored time stays 1000000.
\<close>

theorem C6_write_on_allow_witness:
  "ticketBuffer (fst (parseTickets defaultMatch 1000000 (Bot config_default) (Some ''C1'')
       (Some ''see PROJ-123''))) ''C1-PROJ-123'' = Some 1000000
   \<and> parseTickets defaultMatch 1001000
        ((Bot config_default)\<lparr>ticketBuffer := [''C1-PROJ-123'' \<mapsto> 1000000]\<rparr>)
        (Some ''C1'') (Some ''see PROJ-123'')
      = ((Bot config_default)\<lparr>ticketBuffer := [''C1-PROJ-123'' \<mapsto> 1000000]\<rparr>, Inr [])
   \<and> ticketBuffer (fst (parseTickets defaultMatch 1001000
        ((Bot config_default)\<lparr>ticketBuffer := [''C1-PROJ-123'' \<mapsto> 1000000]\<rparr>)
        (Some ''C1'') (Some ''see PROJ-123''))) ''C1-PROJ-123'' = Some 1000000"
proof -
  have second:
    "parseTickets defaultMatch 1001000
        ((Bot config_default)\<lparr>ticketBuffer := [''C1-PROJ-123'' \<mapsto> 1000000]\<rparr>)
        (Some ''C1'') (Some ''see PROJ-123'')
      = ((Bot config_default)\<lparr>ticketBuffer := [''C1-PROJ-123'' \<mapsto> 1000000]\<rparr>, Inr [])"
    by (simp add: run_simps)
  show ?thesis
    using C6_write_on_allow [OF first_sighting] C6_write_on_allow [OF second] second
    by (simp add: first_sighting hashTicket_def)
qed

subsection \<open>The suppression window\<close>

text \<open>
  Sweeps between two calls: an entry is either still there or was deleted by a sweep that
  ran more than the buffer length after it was written.
\<close>

lemma sweeps_entry:
  assumes "\<forall>s\<in>set sweeps. s \<le> now + d"
    and "ticketBuffer b h = Some now
         \<or> (ticketBuffer b h = None \<and> TICKET_BUFFER_LENGTH b < d)"
  shows "TICKET_BUFFER_LENGTH (foldl (\<lambda>b s. cleanupTicketBuffer s b) b sweeps)
           = TICKET_BUFFER_LENGTH b
         \<and> (ticketBuffer (foldl (\<lambda>b s. cleanupTicketBuffer s b) b sweeps) h = Some now
              \<or> (ticketBuffer (foldl (\<lambda>b s. cleanupTicketBuffer s b) b sweeps) h = None
                  \<and> TICKET_BUFFER_LENGTH b < d))"
  using assms
proof (induction sweeps arbitrary: b)
  case Nil
  then show ?case by simp
next
  case (Cons s ss)
  have len: "TICKET_BUFFER_LENGTH (cleanupTicketBuffer s b) = TICKET_BUFFER_LENGTH b"
    by (simp add: cleanupTicketBuffer_def)
  have "s \<le> now + d" using Cons.prems(1) by simp
  with Cons.prems(2) have
    "ticketBuffer (cleanupTicketBuffer s b) h = Some now
     \<or> (ticketBuffer (cleanupTicketBuffer s b) h = None
         \<and> TICKET_BUFFER_LENGTH (cleanupTicketBuffer s b) < d)"
    by (auto simp: cleanupTicketBuffer_def split: if_splits)
  with Cons.IH[of "cleanupTicketBuffer s b"] Cons.prems(1) len show ?case by simp
qed

text \<open>
  Claim C3, as the code has it. Let a call at time \<open>now\<close> return ticket \<open>t\<close> for channel
  \<open>c\<close>. The next call for the same channel, at \<open>now + d\<close>, on a text in which \<open>t\<close>
  matches, returns, and it returns \<open>t\<close> exactly when \<open>d\<close> is greater than the buffer
  length: the comparison is strict, so at \<open>d\<close> equal to the buffer length the ticket is
  still suppressed. Any number of sweeps may run between the two calls. (The clock is not
  negative, and the matches of the second text do not include the property name
  \<open>hasOwnProperty\<close>, on which the loop throws.)
\<close>

theorem C3_suppression_window:
  assumes first: "parseTickets matchRe now b (Some c) message1 = (b1, Inr out1)"
    and allowed: "t \<in> set out1"
    and clock: "0 \<le> now" "\<forall>s\<in>set sweeps. s \<le> now + d"
    and text2: "message2 \<noteq> []" "matchRe message2 = Some found2" "t \<in> set found2"
    and plain: "''hasOwnProperty'' \<notin> set found2"
  shows "\<exists>b2 out2.
           parseTickets matchRe (now + d) (foldl (\<lambda>b s. cleanupTicketBuffer s b) b1 sweeps)
             (Some c) (Some message2) = (b2, Inr out2)
           \<and> (t \<in> set out2 \<longleftrightarrow> TICKET_BUFFER_LENGTH b < d)"
proof -
  define b1' where "b1' = foldl (\<lambda>b s. cleanupTicketBuffer s b) b1 sweeps"
  from parseTickets_cases[OF first] allowed obtain found1 where
      c: "c \<noteq> []"
      and run1: "forEachFound c now (TICKET_BUFFER_LENGTH b) found1 [] [] (ticketBuffer b)
                   = (ticketBuffer b1, Inr out1)"
      and b1: "b1 = b\<lparr>ticketBuffer := ticketBuffer b1\<rparr>"
    by auto
  have len1: "TICKET_BUFFER_LENGTH b1 = TICKET_BUFFER_LENGTH b"
    by (subst b1) simp
  from forEachFound_buffer[OF run1] allowed
  have "ticketBuffer b1 (hashTicket c t) = Some now" by auto
  with sweeps_entry[OF clock(2), of b1 "hashTicket c t"] len1
  have len: "TICKET_BUFFER_LENGTH b1' = TICKET_BUFFER_LENGTH b"
    and entry: "ticketBuffer b1' (hashTicket c t) = Some now
                \<or> (ticketBuffer b1' (hashTicket c t) = None \<and> TICKET_BUFFER_LENGTH b < d)"
    unfolding b1'_def by simp_all
  from forEachFound_returns[of "[]" found2] plain obtain buf2 out2 where
    run2: "forEachFound c (now + d) (TICKET_BUFFER_LENGTH b) found2 [] [] (ticketBuffer b1')
             = (buf2, Inr out2)"
    by force
  have call2: "parseTickets matchRe (now + d) b1' (Some c) (Some message2)
                 = (b1'\<lparr>ticketBuffer := buf2\<rparr>, Inr out2)"
    using parseTickets_run[of c message2 matchRe found2 "now + d" b1'] c text2(1,2) run2 len
    by simp
  have "t \<in> set out2" if "TICKET_BUFFER_LENGTH b < d"
    using forEachFound_allowed[OF run2 text2(3)] that entry clock(1)
    by (auto simp: lastResponded_def)
  moreover have "t \<notin> set out2" if "\<not> TICKET_BUFFER_LENGTH b < d"
    using forEachFound_suppressed[OF run2, of t] that entry
    by (auto simp: lastResponded_def)
  ultimately show ?thesis using call2 unfolding b1'_def by blast
qed

text \<open>
  One millisecond past the window the ticket is returned again, here with no sweep in
  between and with sweeps after one and five minutes.
\<close>

theorem C3_suppression_window_witness:
  "(\<exists>b2 out2.
      parseTickets defaultMatch (1000000 + 300001)
        ((Bot config_default)\<lparr>ticketBuffer := [''C1-PROJ-123'' \<mapsto> 1000000]\<rparr>)
        (Some ''C1'') (Some ''PROJ-123 again'') = (b2, Inr out2)
      \<and> (''PROJ-123'' \<in> set out2 \<longleftrightarrow> TICKET_BUFFER_LENGTH (Bot config_default) < 300001))
   \<and> (\<exists>b2 out2.
      parseTickets defaultMatch (1000000 + 300001)
        (cleanupTicketBuffer 1300000 (cleanupTicketBuffer 1060000
           ((Bot config_default)\<lparr>ticketBuffer := [''C1-PROJ-123'' \<mapsto> 1000000]\<rparr>)))
        (Some ''C1'') (Some ''PROJ-123 again'') = (b2, Inr out2)
      \<and> (''PROJ-123'' \<in> set out2 \<longleftrightarrow> TICKET_BUFFER_LENGTH (Bot config_default) < 300001))"
proof -
  have found2: "defaultMatch ''PROJ-123 again'' = Some [''PROJ-123'']"
    by (simp add: run_simps)
  have t1: "''PROJ-123'' \<in> set [''PROJ-123'']" by simp
  have now: "(0::int) \<le> 1000000" by simp
  have s0: "\<forall>s\<in>set ([]::int list). s \<le> 1000000 + 300001" by simp
  have s2: "\<forall>s\<in>set [1060000, 1300000::int]. s \<le> 1000000 + 300001" by simp
  have ne: "''PROJ-123 again'' \<noteq> []" by simp
  have plain: "''hasOwnProperty'' \<notin> set [''PROJ-123'']" by simp
  from C3_suppression_window [OF first_sighting t1 now s0 ne found2 t1 plain]
    C3_suppression_window [OF first_sighting t1 now s2 ne found2 t1 plain]
  show ?thesis by simp
qed

text \<open>
  The claim as the specification states it fails at \<open>d\<close> equal to the window: the first
  call returns the ticket, and the call 300000 ms later, with a buffer length of 300000,
  returns nothing.
\<close>

theorem C3_counterexample:
  "TICKET_BUFFER_LENGTH (Bot config_default) = 300000
   \<and> snd (parseTickets defaultMatch 1000000 (Bot config_default) (Some ''C1'')
        (Some ''see PROJ-123'')) = Inr [''PROJ-123'']
   \<and> snd (parseTickets defaultMatch (1000000 + 300000)
        (fst (parseTickets defaultMatch 1000000 (Bot config_default) (Some ''C1'')
           (Some ''see PROJ-123'')))
        (Some ''C1'') (Some ''see PROJ-123'')) = Inr []"
  by (simp add: run_simps)

subsection \<open>First occurrences\<close>

text \<open>
  Claim C8. Whatever the buffer holds, \<open>parseTickets\<close> returns, of the matches of the
  text, those at the position where a ticket occurs for the first time, in the order of the
  text, and of these the ones the window does not suppress: a repeat within the text is
  never returned a second time. So a ticket for which the buffer holds no entry for the
  channel of the message is returned exactly once, however often it matches and whatever
  the other matches are; the clock reads more than the buffer length after the epoch (an
  absent entry counts as time 0). The matches are ticket keys, not the property names
  \<open>hasOwnProperty\<close> and \<open>__proto__\<close> of the object \<open>uniques\<close>.
\<close>

theorem C8_first_occurrence:
  assumes input: "c \<noteq> []" "message \<noteq> []" "matchRe message = Some found"
    and plain: "''hasOwnProperty'' \<notin> set found" "''__proto__'' \<notin> set found"
  shows "snd (parseTickets matchRe now b (Some c) (Some message))
           = Inr (filter (\<lambda>t. TICKET_BUFFER_LENGTH b
                                 < now - lastResponded (ticketBuffer b) (hashTicket c t))
                    (firstOccurrences found))
         \<and> distinct (firstOccurrences found) \<and> set (firstOccurrences found) = set found
         \<and> (\<forall>t\<in>set found.
               ticketBuffer b (hashTicket c t) = None \<and> TICKET_BUFFER_LENGTH b < now
               \<longrightarrow> (\<exists>out. snd (parseTickets matchRe now b (Some c) (Some message)) = Inr out
                      \<and> count_list out t = 1))"
proof -
  let ?A = "\<lambda>t. TICKET_BUFFER_LENGTH b < now - lastResponded (ticketBuffer b) (hashTicket c t)"
  have "snd (forEachFound c now (TICKET_BUFFER_LENGTH b) found [] [] (ticketBuffer b))
          = Inr ([] @ filter ?A (keepFirst [] found))"
    using plain by (intro forEachFound_result) auto
  then have res: "snd (parseTickets matchRe now b (Some c) (Some message))
               = Inr (filter ?A (firstOccurrences found))"
    using parseTickets_run[of c message matchRe found now b] input
    by (simp add: keepFirst_firstOccurrences)
  have dist: "distinct (firstOccurrences found)"
    using distinct_keepFirst[of "[]" found] by (simp add: keepFirst_firstOccurrences)
  have set: "set (firstOccurrences found) = set found"
    using set_keepFirst[of "[]" found] by (simp add: keepFirst_firstOccurrences)
  have once: "count_list (filter ?A (firstOccurrences found)) t = 1"
    if "t \<in> set found" "ticketBuffer b (hashTicket c t) = None" "TICKET_BUFFER_LENGTH b < now"
    for t
  proof -
    have "?A t" using that by (simp add: lastResponded_def)
    with that(1) set have "t \<in> set (filter ?A (firstOccurrences found))" by simp
    moreover have "distinct (filter ?A (firstOccurrences found))" using dist by simp
    ultimately show ?thesis by (rule count_list_distinct[rotated])
  qed
  show ?thesis using res dist set once by auto
qed

text \<open>
  The text \<open>AB-1 CD-2 AB-1\<close>: with an empty buffer both tickets are returned, \<open>AB-1\<close>
  once and first; with \<open>CD-2\<close> answered 100 seconds before, \<open>AB-1\<close> alone is returned,
  once.
\<close>

theorem C8_first_occurrence_witness:
  "defaultMatch ''AB-1 CD-2 AB-1'' = Some [''AB-1'', ''CD-2'', ''AB-1'']
   \<and> firstOccurrences [''AB-1'', ''CD-2'', ''AB-1''] = [''AB-1'', ''CD-2'']
   \<and> snd (parseTickets defaultMatch 1000000 (Bot config_default) (Some ''C1'')
        (Some ''AB-1 CD-2 AB-1'')) = Inr [''AB-1'', ''CD-2'']
   \<and> snd (parseTickets defaultMatch 1000000
        ((Bot config_default)\<lparr>ticketBuffer := [''C1-CD-2'' \<mapsto> 900000]\<rparr>) (Some ''C1'')
        (Some ''AB-1 CD-2 AB-1'')) = Inr [''AB-1'']"
proof -
  have found: "defaultMatch ''AB-1 CD-2 AB-1'' = Some [''AB-1'', ''CD-2'', ''AB-1'']"
    by (simp add: run_simps)
  have first: "firstOccurrences [''AB-1'', ''CD-2'', ''AB-1''] = [''AB-1'', ''CD-2'']"
    by (simp add: firstOccurrences_def upt_rec)
  have fresh: "snd (parseTickets defaultMatch 1000000 (Bot config_default) (Some ''C1'')
        (Some ''AB-1 CD-2 AB-1'')) = Inr [''AB-1'', ''CD-2'']"
    using C8_first_occurrence [of "''C1''" "''AB-1 CD-2 AB-1''" defaultMatch
        "[''AB-1'', ''CD-2'', ''AB-1'']" 1000000 "Bot config_default"] found first
    by (simp add: Bot_def lastResponded_def hashTicket_def)
  have seen: "snd (parseTickets defaultMatch 1000000
        ((Bot config_default)\<lparr>ticketBuffer := [''C1-CD-2'' \<mapsto> 900000]\<rparr>) (Some ''C1'')
        (Some ''AB-1 CD-2 AB-1'')) = Inr [''AB-1'']"
    using C8_first_occurrence [of "''C1''" "''AB-1 CD-2 AB-1''" defaultMatch
        "[''AB-1'', ''CD-2'', ''AB-1'']" 1000000
        "(Bot config_default)\<lparr>ticketBuffer := [''C1-CD-2'' \<mapsto> 900000]\<rparr>"] found first
    by (simp add: Bot_def lastResponded_def hashTicket_def)
  from found first fresh seen show ?thesis by simp
qed

section \<open>Properties of the composer\<close>

lemma nameAt_Some:
  "nameAt s = Some v \<longleftrightarrow>
     v \<noteq> [] \<and> CHR '','' \<notin> set v \<and> (\<exists>post. s = '',name='' @ v @ '','' @ post)"
proof
  assume a: "nameAt s = Some v"
  then have pre: "take 6 s = '',name=''"
    and v: "v = takeWhile (\<lambda>c. c \<noteq> CHR '','') (drop 6 s)" "v \<noteq> []"
    and r: "dropWhile (\<lambda>c. c \<noteq> CHR '','') (drop 6 s) \<noteq> []"
    by (auto simp: nameAt_def Let_def split: if_splits)
  from r obtain post where post: "dropWhile (\<lambda>c. c \<noteq> CHR '','') (drop 6 s) = CHR '','' # post"
    by (cases "dropWhile (\<lambda>c. c \<noteq> CHR '','') (drop 6 s)") (auto dest: dropWhile_eq_Cons_conv[THEN iffD1])
  have "s = take 6 s @ drop 6 s" by simp
  also have "drop 6 s = v @ CHR '','' # post"
    using takeWhile_dropWhile_id[of "\<lambda>c. c \<noteq> CHR '',''" "drop 6 s"] v post by simp
  finally have "s = '',name='' @ v @ '','' @ post" using pre by simp
  moreover have "CHR '','' \<notin> set v" using v by (auto dest: set_takeWhileD)
  ultimately show "v \<noteq> [] \<and> CHR '','' \<notin> set v \<and> (\<exists>post. s = '',name='' @ v @ '','' @ post)"
    using v by blast
next
  assume "v \<noteq> [] \<and> CHR '','' \<notin> set v \<and> (\<exists>post. s = '',name='' @ v @ '','' @ post)"
  then obtain post where v: "v \<noteq> []" "CHR '','' \<notin> set v" and s: "s = '',name='' @ v @ '','' @ post"
    by blast
  have d: "drop 6 s = v @ CHR '','' # post" using s by simp
  have all: "\<forall>x\<in>set v. x \<noteq> CHR '',''" using v by auto
  have "takeWhile (\<lambda>c. c \<noteq> CHR '','') (v @ CHR '','' # post) = v"
    using all by (simp add: takeWhile_tail)
  moreover have "dropWhile (\<lambda>c. c \<noteq> CHR '','') (v @ CHR '','' # post) = CHR '','' # post"
    using all by (simp add: dropWhile_append3)
  moreover have "take 6 s = '',name=''" using s by simp
  ultimately show "nameAt s = Some v"
    using v d by (simp add: nameAt_def Let_def)
qed

lemma nameMatch_Some: "nameMatch s = Some v \<Longrightarrow> nameToken s v"
proof (induction s)
  case Nil
  then show ?case by simp
next
  case (Cons c cs)
  show ?case
  proof (cases "nameAt (c # cs)")
    case None
    with Cons have "nameToken cs v" by simp
    then obtain pre post where "v \<noteq> []" "CHR '','' \<notin> set v" "cs = pre @ '',name='' @ v @ '','' @ post"
      by (auto simp: nameToken_def)
    then have "c # cs = (c # pre) @ '',name='' @ v @ '','' @ post" by simp
    with \<open>v \<noteq> []\<close> \<open>CHR '','' \<notin> set v\<close> show ?thesis unfolding nameToken_def by blast
  next
    case (Some w)
    with Cons.prems have "w = v" by simp
    with Some have "nameAt (c # cs) = Some v" by simp
    then obtain post where "v \<noteq> []" "CHR '','' \<notin> set v" "c # cs = [] @ '',name='' @ v @ '','' @ post"
      by (auto simp: nameAt_Some)
    then show ?thesis unfolding nameToken_def by blast
  qed
qed

lemma nameMatch_None: "nameMatch s = None \<Longrightarrow> \<not> nameToken s v"
proof (induction s)
  case Nil
  then show ?case by (simp add: nameToken_def)
next
  case (Cons c cs)
  then have at: "nameAt (c # cs) = None" and rest: "\<not> nameToken cs v"
    by (auto split: option.splits)
  show ?case
  proof
    assume "nameToken (c # cs) v"
    then obtain pre post where v: "v \<noteq> []" "CHR '','' \<notin> set v"
      and s: "c # cs = pre @ '',name='' @ v @ '','' @ post"
      by (auto simp: nameToken_def)
    show False
    proof (cases pre)
      case Nil
      with s v have "nameAt (c # cs) = Some v" by (subst nameAt_Some) auto
      with at show False by simp
    next
      case (Cons p ps)
      with s have "cs = ps @ '',name='' @ v @ '','' @ post" by simp
      with v rest show False unfolding nameToken_def by blast
    qed
  qed
qed

lemmas compose_simps = issueResponse_def lookupFormat_def objectPrototype_def render_def
  formatIssueDescription_def buildIssueLink_def
  fieldFormatters_def Created_def Updated_def Status_def Priority_def Reporter_def Assignee_def
  Sprint_def personValue_def jira2Slack_def customEntry_def nameAt_def Let_def

lemmas sample_simps = config_default_def config_sprint_def config_malformed_def config_custom_def
  config_override_def config_dates_def issueBare_def
  sampleEnv_def sampleIssue_def sampleEval_def sampleMessage_def

subsection \<open>The Sprint formatter\<close>

lemma sprint_last: "nameMatch ''id=8,state=ACTIVE,name=Sprint 8,goal='' = Some ''Sprint 8''"
  by (simp add: nameAt_def)

text \<open>
  Claim C7. With a sprint field configured and the issue's value for it a non-empty list
  of texts, the loop pushes an entry for \<open>Sprint\<close> (it is not left out), and the value
  of the entry is read off the last element of the list: what the leftmost match of
  \<open>,name=([^,]+),\<close> captures when there is a match, and the literal \<open>Not Assigned\<close>
  when there is none. What is captured is the value of a name token of that element, and
  nothing is captured exactly when the element holds no name token.
\<close>

theorem C7_sprint_last_wins:
  assumes "sprintField (jira cfg) \<noteq> []"
    and "issue_fields issue (sprintField (jira cfg)) = Strs xs" and "xs \<noteq> []"
  shows "snd (pushFields e cfg [''Sprint''] issue [])
           = Inr [Some \<lparr>entry_title = ''Sprint'',
                        entry_value = Str (case nameMatch (last xs) of
                                             Some n \<Rightarrow> n | None \<Rightarrow> ''Not Assigned''),
                        entry_short = False\<rparr>]
         \<and> (\<forall>n. nameMatch (last xs) = Some n \<longrightarrow> nameToken (last xs) n)
         \<and> (nameMatch (last xs) = None \<longleftrightarrow> \<not> (\<exists>n. nameToken (last xs) n))"
proof -
  have tok: "n \<noteq> []" if "nameMatch (last xs) = Some n" for n
    using nameMatch_Some[OF that] by (simp add: nameToken_def)
  have "snd (pushFields e cfg [''Sprint''] issue [])
           = Inr [Some \<lparr>entry_title = ''Sprint'',
                        entry_value = Str (case nameMatch (last xs) of
                                             Some n \<Rightarrow> n | None \<Rightarrow> ''Not Assigned''),
                        entry_short = False\<rparr>]"
    using assms tok by (simp add: fieldFormatters_def Sprint_def split: option.splits)
  moreover have "nameMatch (last xs) = None \<longleftrightarrow> \<not> (\<exists>n. nameToken (last xs) n)"
    using nameMatch_Some nameMatch_None by (cases "nameMatch (last xs)") auto
  ultimately show ?thesis using nameMatch_Some by blast
qed

text \<open>A list that encodes Sprint 7 and then Sprint 8 gives \<open>Sprint 8\<close>.\<close>

theorem C7_sprint_last_wins_witness:
  "snd (pushFields sampleEnv config_sprint [''Sprint''] sampleIssue [])
     = Inr [Some \<lparr>entry_title = ''Sprint'', entry_value = Str ''Sprint 8'', entry_short = False\<rparr>]
   \<and> nameToken ''id=8,state=ACTIVE,name=Sprint 8,goal='' ''Sprint 8''"
proof -
  have sf: "sprintField (jira config_sprint) \<noteq> []"
    by (simp add: sample_simps)
  have field: "issue_fields sampleIssue (sprintField (jira config_sprint))
      = Strs [''id=7,state=CLOSED,name=Sprint 7,goal='', ''id=8,state=ACTIVE,name=Sprint 8,goal='']"
    by (simp add: sample_simps)
  from C7_sprint_last_wins [OF sf field, of sampleEnv] sprint_last show ?thesis
    by simp
qed

subsection \<open>The issue after composing\<close>

text \<open>
  Claim C5 does not hold of the code: \<open>parseSprint\<close> reads the last sprint with
  \<open>pop\<close>, which takes it out of the array of the issue. Composing the sample issue with
  the sprint field configured leaves one sprint where the issue had two, and the Sprint
  formatter run on the issue as the first run left it reports \<open>Sprint 7\<close>.
\<close>

theorem C5_issue_mutated:
  "issue_fields sampleIssue ''customfield_10007''
     = Strs [''id=7,state=CLOSED,name=Sprint 7,goal='', ''id=8,state=ACTIVE,name=Sprint 8,goal='']
   \<and> issue_fields (fst (issueResponse sampleEnv config_sprint sampleIssue ''full''))
        ''customfield_10007''
     = Strs [''id=7,state=CLOSED,name=Sprint 7,goal='']
   \<and> fst (issueResponse sampleEnv config_sprint sampleIssue ''full'') \<noteq> sampleIssue
   \<and> snd (Sprint config_sprint sampleIssue) = Inr (Some (Str ''Sprint 8'', False))
   \<and> snd (Sprint config_sprint (fst (Sprint config_sprint sampleIssue)))
     = Inr (Some (Str ''Sprint 7'', False))"
proof -
  have before: "issue_fields sampleIssue ''customfield_10007''
     = Strs [''id=7,state=CLOSED,name=Sprint 7,goal='', ''id=8,state=ACTIVE,name=Sprint 8,goal='']"
    by (simp add: sample_simps)
  have after: "issue_fields (fst (issueResponse sampleEnv config_sprint sampleIssue ''full''))
        ''customfield_10007''
     = Strs [''id=7,state=CLOSED,name=Sprint 7,goal='']"
    by (simp add: compose_simps sample_simps)
  from before after have "fst (issueResponse sampleEnv config_sprint sampleIssue ''full'') \<noteq> sampleIssue"
    by (metis jsval.inject(2) list.inject not_Cons_self2)
  moreover have "snd (Sprint config_sprint sampleIssue) = Inr (Some (Str ''Sprint 8'', False))"
    by (simp add: compose_simps sample_simps)
  moreover have "snd (Sprint config_sprint (fst (Sprint config_sprint sampleIssue)))
     = Inr (Some (Str ''Sprint 7'', False))"
    by (simp add: compose_simps sample_simps)
  ultimately show ?thesis using before after by blast
qed

subsection \<open>Fields that resolve to nothing\<close>

text \<open>
  Claim C2 does not hold of the code. The default configuration names no sprint field and
  its format \<open>full\<close> lists \<open>Sprint\<close>: the formatter returns nothing, setting the title
  on that result throws, and no attachment is composed. A field name that is not built in,
  with no custom fields configured, is pushed as \<open>null\<close> between its neighbours.
\<close>

theorem C2_unresolved_fields:
  "snd (issueResponse sampleEnv config_default sampleIssue ''full'') = Inl TypeError
   \<and> map_sum id att_fields (snd (issueResponse sampleEnv config_custom sampleIssue ''micro''))
     = Inr [Some \<lparr>entry_title = ''Status'', entry_value = Str ''Open'', entry_short = True\<rparr>,
            None,
            Some \<lparr>entry_title = ''Priority'', entry_value = Str ''Major'', entry_short = True\<rparr>]"
  by (simp add: compose_simps sample_simps)


subsection \<open>Fields the formatters need\<close>

lemma issue_update_same:
  "issue_fields i k = v \<Longrightarrow> i\<lparr>issue_fields := (issue_fields i)(k := v)\<rparr> = i"
  by (cases i) (auto simp: fun_upd_idem)

lemma parseSprint_nullish:
  "v = Undefined \<or> v = Null \<Longrightarrow> parseSprint v = (v, Inr [])"
  by auto

lemma formatter_keeps_nullish:
  assumes "fieldFormatters e cfg f = Some fm"
    and "issue_fields issue k = Undefined \<or> issue_fields issue k = Null"
  shows "issue_fields (fst (fm issue)) k = issue_fields issue k"
proof (cases "f = ''Sprint''")
  case True
  with assms(1) have fm: "fm = Sprint cfg" by (simp add: fieldFormatters_def)
  show ?thesis
  proof (cases "k = sprintField (jira cfg)")
    case True
    with assms(2) show ?thesis
      using parseSprint_nullish[of "issue_fields issue k"]
      by (auto simp: fm Sprint_def)
  next
    case False
    then show ?thesis by (simp add: fm Sprint_def split: prod.splits)
  qed
next
  case False
  with assms(1) show ?thesis
    by (auto simp: fieldFormatters_def Created_def Updated_def Status_def Priority_def
        Reporter_def Assignee_def split: if_splits)
qed

lemma pushFields_throws:
  assumes "f \<in> set fs" and "fieldFormatters e cfg f = Some fm"
    and "\<And>i. issue_fields i k = Undefined \<or> issue_fields i k = Null \<Longrightarrow> \<exists>x. snd (fm i) = Inl x"
    and "issue_fields issue k = Undefined \<or> issue_fields issue k = Null"
  shows "\<exists>x. snd (pushFields e cfg fs issue acc) = Inl x"
  using assms(1,4)
proof (induction fs arbitrary: issue acc)
  case Nil
  then show ?case by simp
next
  case (Cons g gs)
  show ?case
  proof (cases "fieldFormatters e cfg g")
    case None
    with assms(2) have "g \<noteq> f" by auto
    with Cons.prems have "f \<in> set gs" by simp
    from Cons.IH[OF this Cons.prems(2)] None show ?thesis by simp
  next
    case (Some gm)
    obtain issue' r where run: "gm issue = (issue', r)" by (cases "gm issue")
    have keep: "issue_fields issue' k = Undefined \<or> issue_fields issue' k = Null"
      using formatter_keeps_nullish[OF Some Cons.prems(2)] run Cons.prems(2) by simp
    show ?thesis
    proof (cases r)
      case (Inl x)
      with Some run show ?thesis by simp
    next
      case (Inr res)
      show ?thesis
      proof (cases res)
        case None
        with Some run Inr show ?thesis by simp
      next
        case (Some vs)
        obtain v s where vs: "vs = (v, s)" by (cases vs)
        have "g \<noteq> f"
        proof
          assume "g = f"
          with \<open>fieldFormatters e cfg g = Some gm\<close> assms(2) have "gm = fm" by simp
          with assms(3)[OF Cons.prems(2)] run Inr show False by simp
        qed
        with Cons.prems have "f \<in> set gs" by simp
        from Cons.IH[OF this keep] \<open>fieldFormatters e cfg g = Some gm\<close> run Inr Some vs
        show ?thesis by simp
      qed
    qed
  qed
qed

lemma lookupFormat_own:
  "responseFormats cfg fmt = Some rf \<Longrightarrow> lookupFormat cfg fmt = Some rf"
  by (simp add: lookupFormat_def)

lemma issueResponse_fields_throw:
  assumes "responseFormats cfg fmt = Some rf" and "format_fields rf = Some fs"
    and "\<exists>x. snd (pushFields e cfg fs issue []) = Inl x"
  shows "\<exists>x. snd (issueResponse e cfg issue fmt) = Inl x"
  using assms
  by (auto simp: issueResponse_def lookupFormat_own split: sum.splits prod.splits)

text \<open>
  Claim C10, as the code has it. For a format that lists \<open>Status\<close>, \<open>Priority\<close> or
  \<open>Reporter\<close>, an issue whose field of that name is absent or \<open>null\<close> makes the
  formatter throw a \<open>TypeError\<close> and the composition fail. The Assignee formatter gives
  \<open>Unassigned\<close> for an assignee that is absent, \<open>null\<close> or empty; the Sprint formatter,
  with a sprint field configured, gives \<open>Not Assigned\<close> for a value that is absent or
  \<open>null\<close>; and \<open>Created\<close> and \<open>Updated\<close> hand their field to the date library as it
  is, and give an entry whenever the library returns.
\<close>

theorem C10_required_fields:
  assumes "responseFormats cfg fmt = Some rf" and "format_fields rf = Some fs"
  shows "(''Status'' \<in> set fs
            \<and> (issue_fields issue ''status'' = Undefined \<or> issue_fields issue ''status'' = Null)
          \<longrightarrow> snd (Status issue) = Inl TypeError
              \<and> (\<exists>x. snd (issueResponse e cfg issue fmt) = Inl x))
       \<and> (''Priority'' \<in> set fs
            \<and> (issue_fields issue ''priority'' = Undefined \<or> issue_fields issue ''priority'' = Null)
          \<longrightarrow> snd (Priority issue) = Inl TypeError
              \<and> (\<exists>x. snd (issueResponse e cfg issue fmt) = Inl x))
       \<and> (''Reporter'' \<in> set fs
            \<and> (issue_fields issue ''reporter'' = Undefined \<or> issue_fields issue ''reporter'' = Null)
          \<longrightarrow> snd (Reporter cfg issue) = Inl TypeError
              \<and> (\<exists>x. snd (issueResponse e cfg issue fmt) = Inl x))
       \<and> (\<not> truthy (issue_fields issue ''assignee'')
          \<longrightarrow> Assignee cfg issue = (issue, Inr (Some (Str ''Unassigned'', True))))
       \<and> (sprintField (jira cfg) \<noteq> []
            \<and> (issue_fields issue (sprintField (jira cfg)) = Undefined
                \<or> issue_fields issue (sprintField (jira cfg)) = Null)
          \<longrightarrow> Sprint cfg issue = (issue, Inr (Some (Str ''Not Assigned'', False))))
       \<and> (\<forall>s. calendar e (issue_fields issue ''created'') = Inr s
          \<longrightarrow> Created e issue = (issue, Inr (Some (Str s, True))))
       \<and> (\<forall>s. calendar e (issue_fields issue ''updated'') = Inr s
          \<longrightarrow> Updated e issue = (issue, Inr (Some (Str s, True))))"
proof -
  have status: "\<exists>x. snd (issueResponse e cfg issue fmt) = Inl x"
    if "''Status'' \<in> set fs"
      "issue_fields issue ''status'' = Undefined \<or> issue_fields issue ''status'' = Null"
  proof (rule issueResponse_fields_throw[OF assms])
    show "\<exists>x. snd (pushFields e cfg fs issue []) = Inl x"
      by (rule pushFields_throws[OF that(1), where fm = Status and k = "''status''"])
        (use that(2) in \<open>auto simp: fieldFormatters_def Status_def\<close>)
  qed
  have priority: "\<exists>x. snd (issueResponse e cfg issue fmt) = Inl x"
    if "''Priority'' \<in> set fs"
      "issue_fields issue ''priority'' = Undefined \<or> issue_fields issue ''priority'' = Null"
  proof (rule issueResponse_fields_throw[OF assms])
    show "\<exists>x. snd (pushFields e cfg fs issue []) = Inl x"
      by (rule pushFields_throws[OF that(1), where fm = Priority and k = "''priority''"])
        (use that(2) in \<open>auto simp: fieldFormatters_def Priority_def\<close>)
  qed
  have reporter: "\<exists>x. snd (issueResponse e cfg issue fmt) = Inl x"
    if "''Reporter'' \<in> set fs"
      "issue_fields issue ''reporter'' = Undefined \<or> issue_fields issue ''reporter'' = Null"
  proof (rule issueResponse_fields_throw[OF assms])
    show "\<exists>x. snd (pushFields e cfg fs issue []) = Inl x"
      by (rule pushFields_throws[OF that(1), where fm = "Reporter cfg" and k = "''reporter''"])
        (use that(2) in \<open>auto simp: fieldFormatters_def Reporter_def personValue_def\<close>)
  qed
  have s1: "snd (Status issue) = Inl TypeError"
    if "issue_fields issue ''status'' = Undefined \<or> issue_fields issue ''status'' = Null"
    using that by (auto simp: Status_def)
  have s2: "snd (Priority issue) = Inl TypeError"
    if "issue_fields issue ''priority'' = Undefined \<or> issue_fields issue ''priority'' = Null"
    using that by (auto simp: Priority_def)
  have s3: "snd (Reporter cfg issue) = Inl TypeError"
    if "issue_fields issue ''reporter'' = Undefined \<or> issue_fields issue ''reporter'' = Null"
    using that by (auto simp: Reporter_def personValue_def)
  have assignee: "Assignee cfg issue = (issue, Inr (Some (Str ''Unassigned'', True)))"
    if "\<not> truthy (issue_fields issue ''assignee'')"
    using that by (simp add: Assignee_def)
  have sprint: "Sprint cfg issue = (issue, Inr (Some (Str ''Not Assigned'', False)))"
    if "sprintField (jira cfg) \<noteq> []"
      "issue_fields issue (sprintField (jira cfg)) = Undefined
        \<or> issue_fields issue (sprintField (jira cfg)) = Null"
    using that by (auto simp: Sprint_def issue_update_same)
  have created: "Created e issue = (issue, Inr (Some (Str s, True)))"
    if "calendar e (issue_fields issue ''created'') = Inr s" for s
    using that by (simp add: Created_def)
  have updated: "Updated e issue = (issue, Inr (Some (Str s, True)))"
    if "calendar e (issue_fields issue ''updated'') = Inr s" for s
    using that by (simp add: Updated_def)
  show ?thesis
    using status priority reporter s1 s2 s3 assignee sprint created updated by blast
qed





theorem C10_required_fields_witness:
  "snd (Status issueBare) = Inl TypeError
   \<and> snd (issueResponse sampleEnv config_sprint issueBare ''full'') = Inl TypeError
   \<and> Assignee config_sprint issueBare = (issueBare, Inr (Some (Str ''Unassigned'', True)))
   \<and> Sprint config_sprint issueBare = (issueBare, Inr (Some (Str ''Not Assigned'', False)))
   \<and> Created sampleEnv issueBare = (issueBare, Inr (Some (Str ''Today at 10:00 AM'', True)))"
proof -
  have rf: "responseFormats config_sprint ''full'' =
      Some \<lparr>description = True,
            pretext = Some ''`Here is some information on ${issue.key}`'',
            title = None, hideFooter = False, respondInThread = False,
            format_fields =
              Some [''Created'', ''Updated'', ''Status'', ''Priority'', ''Reporter'',
                    ''Assignee'', ''Sprint'']\<rparr>"
    by (simp add: sample_simps)
  have eval: "snd (issueResponse sampleEnv config_sprint issueBare ''full'') = Inl TypeError"
    by (simp add: compose_simps sample_simps)
  from C10_required_fields [OF rf, of _ issueBare sampleEnv] eval show ?thesis
    by (simp add: sample_simps)
qed

text \<open>
  The claim as stated makes the Assignee formatter the only one that tolerates an absent
  field, and the dates a precondition. An issue with a summary and nothing else, composed
  with a format of \<open>Created\<close>, \<open>Updated\<close>, \<open>Assignee\<close> and \<open>Sprint\<close>, gives all four
  entries (\<open>moment(undefined)\<close> is the current time).
\<close>

theorem C10_counterexample:
  "issue_fields issueBare ''created'' = Undefined
   \<and> issue_fields issueBare ''updated'' = Undefined
   \<and> issue_fields issueBare ''customfield_10007'' = Undefined
   \<and> sprintField (jira config_dates) = ''customfield_10007''
   \<and> snd (Sprint config_dates issueBare) = Inr (Some (Str ''Not Assigned'', False))
   \<and> map_sum id att_fields (snd (issueResponse sampleEnv config_dates issueBare ''micro''))
     = Inr [Some \<lparr>entry_title = ''Created'', entry_value = Str ''Today at 10:00 AM'', entry_short = True\<rparr>,
            Some \<lparr>entry_title = ''Updated'', entry_value = Str ''Today at 10:00 AM'', entry_short = True\<rparr>,
            Some \<lparr>entry_title = ''Assignee'', entry_value = Str ''Unassigned'', entry_short = True\<rparr>,
            Some \<lparr>entry_title = ''Sprint'', entry_value = Str ''Not Assigned'', entry_short = False\<rparr>]"
  by (simp add: compose_simps sample_simps)

subsection \<open>A template that throws\<close>

lemma issueResponse_render_throws:
  assumes "responseFormats cfg fmt = Some rf"
    and "(\<exists>x. render e (pretext rf) issue = Inl x) \<or> (\<exists>x. render e (title rf) issue = Inl x)"
  shows "\<exists>y. issueResponse e cfg issue fmt = (issue, Inl y)"
  using assms by (auto simp: issueResponse_def lookupFormat_own split: sum.splits)

lemma handleMessage_run:
  assumes "msg_type message = Some ''ambient''" and "msg_text message = Some t" and "t \<noteq> []"
    and "parseTickets (regexMatch e (regex (jira (config b)))) now b (msg_channel message)
           (msg_text message) = (b', Inr found)"
    and "found \<noteq> []"
  shows "handleMessage e now b message
           = (b', Inr (LogDetected found # concat (map (respond e (config b) message) found)))"
  using assms by (simp add: handleMessage_def)

text \<open>
  Claim C4, as the code has it. When \<open>eval\<close> throws on the pretext or the title
  template of the chosen format, the \<open>catch\<close> of the ticket's promise chain logs an
  error for that ticket and nothing is sent for it: there is no fallback attachment.
  \<open>handleMessage\<close> itself returns, with the actions of every ticket found, each from its
  own chain.
\<close>

theorem C4_template_failure:
  assumes "findIssue e issueId = Inr issue"
    and "responseFormats cfg (chosenFormat cfg message) = Some rf"
    and "pretext rf = Some src \<or> title rf = Some src" and "src \<noteq> []"
    and "evalTemplate e src issue = Inl x"
  shows "(\<exists>y. respond e cfg message issueId
                = [LogFormat (msg_channel message) (chosenFormat cfg message),
                   LogFindError issueId y])
         \<and> (config b = cfg \<and> msg_type message = Some ''ambient'' \<and> msg_text message = Some t
              \<and> t \<noteq> [] \<and> found \<noteq> []
              \<and> parseTickets (regexMatch e (regex (jira cfg))) now b (msg_channel message)
                   (msg_text message) = (b', Inr found)
            \<longrightarrow> handleMessage e now b message
                  = (b', Inr (LogDetected found
                               # concat (map (respond e cfg message) found))))"
proof -
  from assms(3-5) have
    "(\<exists>x. render e (pretext rf) issue = Inl x) \<or> (\<exists>x. render e (title rf) issue = Inl x)"
    by (auto simp: render_def)
  from issueResponse_render_throws[OF assms(2) this] obtain y where
    "issueResponse e cfg issue (chosenFormat cfg message) = (issue, Inl y)" by blast
  with assms(1) have "respond e cfg message issueId
                = [LogFormat (msg_channel message) (chosenFormat cfg message),
                   LogFindError issueId y]"
    by (simp add: respond_def)
  then show ?thesis using handleMessage_run[of message t e b now b' found] by auto
qed

lemmas handle_simps = handleMessage_def respond_def chosenFormat_def objectPrototype_def

theorem C4_template_failure_witness:
  "respond sampleEnv config_malformed sampleMessage ''PROJ-123''
     = [LogFormat (Some ''C1'') ''micro'', LogFindError ''PROJ-123'' SyntaxError]"
proof -
  have rf: "responseFormats config_malformed (chosenFormat config_malformed sampleMessage)
      = Some \<lparr>description = False, pretext = None, title = Some ''`${issue.key'',
           hideFooter = True, respondInThread = True, format_fields = None\<rparr>"
    by (simp add: chosenFormat_def objectPrototype_def sample_simps)
  have f: "findIssue sampleEnv ''PROJ-123'' = Inr sampleIssue"
    by (simp add: sample_simps)
  have ev: "evalTemplate sampleEnv ''`${issue.key'' sampleIssue = Inl SyntaxError"
    by (simp add: sampleEnv_def sampleEval_def)
  have eval: "respond sampleEnv config_malformed sampleMessage ''PROJ-123''
     = [LogFormat (Some ''C1'') ''micro'', LogFindError ''PROJ-123'' SyntaxError]"
    by (simp add: handle_simps compose_simps sample_simps)
  from C4_template_failure [OF f rf _ _ ev] eval show ?thesis by simp
qed

text \<open>
  The claim as stated has the attachment fall back to the summary. With a title template
  that does not parse, the run for a message that names the sample issue ends with the
  error logged and no reply.
\<close>

theorem C4_counterexample:
  "title (the (responseFormats config_malformed ''micro'')) = Some ''`${issue.key''
   \<and> evalTemplate sampleEnv ''`${issue.key'' sampleIssue = Inl SyntaxError
   \<and> snd (handleMessage sampleEnv 1000000 (Bot config_malformed) sampleMessage)
     = Inr [LogDetected [''PROJ-123''], LogFormat (Some ''C1'') ''micro'',
            LogFindError ''PROJ-123'' SyntaxError]"
  by (simp add: handle_simps compose_simps sample_simps run_simps)

subsection \<open>The format chosen\<close>






end
